theory Spec2Isabelle
  imports Main "HOL-Library.Multiset" "HOL-Library.Char_ord" "HOL-Library.List_Lexorder"
begin

section \<open>Python values, dictionaries and exceptions\<close>

text \<open>
  The pipelines pass Python dictionaries around. A dictionary read by \<^verbatim>\<open>csv.DictReader\<close>
  maps field names to strings, but a row that is shorter than the header gets \<^verbatim>\<open>None\<close> for
  the missing fields and a longer one gets the list of its extra fields under the key
  \<^verbatim>\<open>None\<close>; an output row holds strings and integers. So keys and values are both Python
  values. Strings are taken as ASCII text.
\<close>

datatype pyval = Str string | Num int | NoneVal | StrList "string list"

datatype error = IOError | KeyError | IndexError | ValueError | TypeError

type_synonym pydict = "pyval \<rightharpoonup> pyval"

text \<open>Sequencing of computations that may raise: the first exception wins.\<close>

fun try_bind :: "error + 'a \<Rightarrow> ('a \<Rightarrow> error + 'b) \<Rightarrow> error + 'b" where
  "try_bind (Inl e) f = Inl e"
| "try_bind (Inr x) f = f x"

text \<open>A loop or comprehension over a list, evaluated left to right.\<close>

fun traverse :: "('a \<Rightarrow> error + 'b) \<Rightarrow> 'a list \<Rightarrow> error + 'b list" where
  "traverse f [] = Inr []"
| "traverse f (x # xs) =
     try_bind (f x) (\<lambda>y. try_bind (traverse f xs) (\<lambda>ys. Inr (y # ys)))"

text \<open>\<^verbatim>\<open>d[k]\<close> for a string key: \<^verbatim>\<open>KeyError\<close> when the key is absent.\<close>

definition getitem :: "pydict \<Rightarrow> string \<Rightarrow> error + pyval" where
  "getitem d k = (case d (Str k) of None \<Rightarrow> Inl KeyError | Some v \<Rightarrow> Inr v)"

subsection \<open>\<^verbatim>\<open>int(...)\<close> on a string\<close>

text \<open>
  Python's \<^verbatim>\<open>int(s)\<close> strips white space, reads an optional sign and then decimal digits,
  where single underscores may separate digits; anything else is a \<^verbatim>\<open>ValueError\<close>.
\<close>

definition is_space :: "char \<Rightarrow> bool" where
  "is_space c = (let n = (of_char c :: nat) in n = 32 \<or> (9 \<le> n \<and> n \<le> 13) \<or> (28 \<le> n \<and> n \<le> 31))"

definition is_digit :: "char \<Rightarrow> bool" where
  "is_digit c = (48 \<le> (of_char c :: nat) \<and> (of_char c :: nat) \<le> 57)"

definition digit_val :: "char \<Rightarrow> nat" where
  "digit_val c = of_char c - 48"

definition strip :: "string \<Rightarrow> string" where
  "strip s = rev (dropWhile is_space (rev (dropWhile is_space s)))"

fun py_digits :: "nat \<Rightarrow> string \<Rightarrow> nat option" where
  "py_digits acc [] = Some acc"
| "py_digits acc [c] = (if is_digit c then Some (10 * acc + digit_val c) else None)"
| "py_digits acc (c # d # ds) =
     (if is_digit c then py_digits (10 * acc + digit_val c) (d # ds)
      else if c = CHR ''_'' \<and> is_digit d then py_digits (10 * acc + digit_val d) ds
      else None)"

definition py_nat :: "string \<Rightarrow> nat option" where
  "py_nat s = (case s of [] \<Rightarrow> None
               | c # cs \<Rightarrow> if is_digit c then py_digits (digit_val c) cs else None)"

definition int_of_str :: "string \<Rightarrow> int option" where
  "int_of_str s =
     (case strip s of [] \<Rightarrow> None
      | c # cs \<Rightarrow>
          if c = CHR ''-'' then map_option (\<lambda>n. - int n) (py_nat cs)
          else if c = CHR ''+'' then map_option int (py_nat cs)
          else map_option int (py_nat (c # cs)))"

fun py_int :: "pyval \<Rightarrow> error + int" where
  "py_int (Str s) = (case int_of_str s of None \<Rightarrow> Inl ValueError | Some n \<Rightarrow> Inr n)"
| "py_int (Num n) = Inr n"
| "py_int NoneVal = Inl TypeError"
| "py_int (StrList xs) = Inl TypeError"

text \<open>\<^verbatim>\<open>int(d[k])\<close>\<close>

definition int_item :: "pydict \<Rightarrow> string \<Rightarrow> error + int" where
  "int_item d k = try_bind (getitem d k) py_int"

subsection \<open>\<^verbatim>\<open>"-".join\<close> and \<^verbatim>\<open>split("-")\<close>\<close>

fun join :: "string \<Rightarrow> string list \<Rightarrow> string" where
  "join sep [] = []"
| "join sep [x] = x"
| "join sep (x # y # ys) = x @ sep @ join sep (y # ys)"

text \<open>
  \<^verbatim>\<open>s.split(c)\<close> for a one-character separator: the result is never empty, and the
  empty string splits into one empty piece.
\<close>

fun split :: "char \<Rightarrow> string \<Rightarrow> string list" where
  "split c [] = [[]]"
| "split c (x # xs) =
     (let r = split c xs in if x = c then [] # r else (x # hd r) # tl r)"

text \<open>\<^verbatim>\<open>"-".join([...])\<close> needs every item to be a string.\<close>

fun the_str :: "pyval \<Rightarrow> error + string" where
  "the_str (Str s) = Inr s"
| "the_str v = Inl TypeError"

section \<open>The Beam pipeline\<close>

subsection \<open>Reading\<close>





subsection \<open>Joining\<close>

text \<open>\<^verbatim>\<open>beam.Map(lambda cols: (cols["counter_party"], cols))\<close>\<close>

definition key_by_counter_party :: "pydict list \<Rightarrow> error + (pyval \<times> pydict) list" where
  "key_by_counter_party ds =
     traverse (\<lambda>cols. try_bind (getitem cols ''counter_party'') (\<lambda>k. Inr (k, cols))) ds"

text \<open>
  Beam's grouping transforms give one element per distinct key. Beam leaves the order of
  the keys and of the values under a key open; here keys come in the order of their first
  appearance and values in the order they were read.
\<close>

definition uniq_keys :: "'k list \<Rightarrow> 'k list" where
  "uniq_keys ks = rev (remdups (rev ks))"

definition values_of :: "'k \<Rightarrow> ('k \<times> 'v) list \<Rightarrow> 'v list" where
  "values_of k kvs = map snd (filter (\<lambda>kv. fst kv = k) kvs)"

definition CoGroupByKey ::
  "('k \<times> 'v) list \<Rightarrow> ('k \<times> 'v) list \<Rightarrow> ('k \<times> 'v list \<times> 'v list) list" where
  "CoGroupByKey kv1 kv2 =
     map (\<lambda>k. (k, values_of k kv1, values_of k kv2)) (uniq_keys (map fst kv1 @ map fst kv2))"

definition GroupBy :: "('k \<times> 'v) list \<Rightarrow> ('k \<times> 'v list) list" where
  "GroupBy kvs = map (\<lambda>k. (k, values_of k kvs)) (uniq_keys (map fst kvs))"

text \<open>
  \<^verbatim>\<open>ReshapeData.process\<close>: every entry of \<^verbatim>\<open>dataset1\<close> is copied and gets the tier of
  \<^verbatim>\<open>dataset2[0]\<close>; that index raises \<^verbatim>\<open>IndexError\<close> when \<^verbatim>\<open>dataset2\<close> is empty.
\<close>

definition ReshapeData :: "pyval \<times> pydict list \<times> pydict list \<Rightarrow> error + pydict list" where
  "ReshapeData element =
     (case element of (_, dataset1, dataset2) \<Rightarrow>
        traverse (\<lambda>entry.
            case dataset2 of [] \<Rightarrow> Inl IndexError
            | b # _ \<Rightarrow> try_bind (getitem b ''tier'') (\<lambda>t. Inr (entry(Str ''tier'' \<mapsto> t))))
          dataset1)"

definition merged_data :: "pydict list \<Rightarrow> pydict list \<Rightarrow> error + pydict list" where
  "merged_data dataset1 dataset2 =
     try_bind (key_by_counter_party dataset1) (\<lambda>kv1.
     try_bind (key_by_counter_party dataset2) (\<lambda>kv2.
     try_bind (traverse ReshapeData (CoGroupByKey kv1 kv2)) (\<lambda>yielded.
     Inr (concat yielded))))"

subsection \<open>Grouping and aggregating\<close>

text \<open>
  \<^verbatim>\<open>CompositeKeyFn.process\<close>: the list \<^verbatim>\<open>[element[key] for key in keys]\<close> is built first,
  then joined.
\<close>

definition CompositeKeyFn :: "string list \<Rightarrow> pydict \<Rightarrow> error + (string \<times> pydict)" where
  "CompositeKeyFn keys element =
     try_bind (traverse (getitem element) keys) (\<lambda>items.
     try_bind (traverse the_str items) (\<lambda>vs.
     Inr (join ''-'' vs, element)))"

text \<open>The values of a status class, in the order of the \<^verbatim>\<open>sum(... if ...)\<close> generator.\<close>

fun status_values :: "string \<Rightarrow> pydict list \<Rightarrow> error + int list" where
  "status_values st [] = Inr []"
| "status_values st (x # xs) =
     try_bind (getitem x ''status'') (\<lambda>s.
       if s = Str st
       then try_bind (int_item x ''value'') (\<lambda>v.
            try_bind (status_values st xs) (\<lambda>vs. Inr (v # vs)))
       else status_values st xs)"

type_synonym aggregate = "string \<times> int \<times> int \<times> int \<times> int"

definition ExtractAndSum :: "string \<times> pydict list \<Rightarrow> error + aggregate" where
  "ExtractAndSum element =
     (case element of (key, data) \<Rightarrow>
        try_bind (traverse (\<lambda>x. int_item x ''rating'') data) (\<lambda>ratings.
        case ratings of [] \<Rightarrow> Inl ValueError
        | r # rs \<Rightarrow>
            try_bind (status_values ''ARAP'' data) (\<lambda>araps.
            try_bind (status_values ''ACCR'' data) (\<lambda>accrs.
            Inr (key, fold max rs r, sum_list araps, sum_list accrs, int (length data))))))"

subsection \<open>Formatting and writing\<close>

definition aggr_columns :: "string list" where
  "aggr_columns = [''legal_entity'', ''counter_party'', ''tier'']"

text \<open>\<^verbatim>\<open>for i, key in enumerate(group_by_key): result_dict[key] = split_key[i]\<close>\<close>

fun assign_keys :: "string list \<Rightarrow> nat \<Rightarrow> string list \<Rightarrow> pydict \<Rightarrow> error + pydict" where
  "assign_keys split_key i [] d = Inr d"
| "assign_keys split_key i (key # keys) d =
     (if i < length split_key
      then assign_keys split_key (Suc i) keys (d(Str key \<mapsto> Str (split_key ! i)))
      else Inl IndexError)"

definition backfill :: "int \<Rightarrow> string \<Rightarrow> pydict \<Rightarrow> pydict" where
  "backfill total_n column d = (if d (Str column) = None then d(Str column \<mapsto> Num total_n) else d)"

definition PrepareOutputData :: "string list \<Rightarrow> aggregate \<Rightarrow> error + pydict" where
  "PrepareOutputData group_by_key element =
     (case element of (key, max_rating, sum_arap, sum_accr, total_n) \<Rightarrow>
        try_bind (assign_keys (split CHR ''-'' key) 0 group_by_key Map.empty) (\<lambda>d.
        Inr ((fold (backfill total_n) aggr_columns d)
               (Str ''max(rating by counterparty)'' \<mapsto> Num max_rating,
                Str ''sum(value where status=ARAP)'' \<mapsto> Num sum_arap,
                Str ''sum(value where status=ACCR)'' \<mapsto> Num sum_accr))))"

definition headers :: "string list" where
  "headers = [''legal_entity'', ''counter_party'', ''tier'', ''max(rating by counterparty)'',
              ''sum(value where status=ARAP)'', ''sum(value where status=ACCR)'']"

text \<open>
  The output file is the list of the rows written to it, each row the list of its cells
  before \<^verbatim>\<open>csv\<close> prints them. It is opened for appending, so \<^verbatim>\<open>file.tell() == 0\<close> holds
  exactly when nothing has been written to it.
\<close>

type_synonym out_file = "pyval list list"

text \<open>The dictionary \<^verbatim>\<open>row_to_write\<close>, as the cells \<^verbatim>\<open>writer.writerow\<close> puts out.\<close>

definition row_to_write :: "pydict \<Rightarrow> error + pyval list" where
  "row_to_write row = traverse (getitem row) headers"

definition SaveOutputToCsv :: "out_file \<Rightarrow> pydict list \<Rightarrow> error + out_file" where
  "SaveOutputToCsv file element =
     (let file1 = (if file = [] then [map Str headers] else file)
      in try_bind (traverse row_to_write element) (\<lambda>rows. Inr (file1 @ rows)))"

subsection \<open>The main program\<close>

definition group_by_columns :: "string list list" where
  "group_by_columns =
     [[''tier''], [''counter_party''], [''legal_entity''],
      [''legal_entity'', ''counter_party''], [''counter_party'', ''tier''],
      [''tier'', ''legal_entity''],
      [''legal_entity'', ''counter_party'', ''tier'']]"

text \<open>The stages of one branch up to the aggregation, and up to the output rows.\<close>

definition aggregates :: "pydict list \<Rightarrow> string list \<Rightarrow> error + aggregate list" where
  "aggregates merged group_by_key =
     try_bind (traverse (CompositeKeyFn group_by_key) merged) (\<lambda>keyed.
     traverse ExtractAndSum (GroupBy keyed))"

definition output_rows :: "pydict list \<Rightarrow> string list \<Rightarrow> error + pydict list" where
  "output_rows merged group_by_key =
     try_bind (aggregates merged group_by_key) (traverse (PrepareOutputData group_by_key))"

text \<open>
  One branch of the pipeline, ending in \<^verbatim>\<open>ToList\<close> and \<^verbatim>\<open>SaveOutputToCsv\<close>, and the
  \<^verbatim>\<open>for group_by_key in group_by_columns\<close> loop with the branches run one after another
  in the order the loop builds them.
\<close>

definition grouped_data :: "pydict list \<Rightarrow> string list \<Rightarrow> out_file \<Rightarrow> error + out_file" where
  "grouped_data merged group_by_key file =
     try_bind (output_rows merged group_by_key) (SaveOutputToCsv file)"

fun run_branches :: "pydict list \<Rightarrow> string list list \<Rightarrow> out_file \<Rightarrow> error + out_file" where
  "run_branches merged [] file = Inr file"
| "run_branches merged (group_by_key # rest) file =
     try_bind (grouped_data merged group_by_key file) (run_branches merged rest)"


section \<open>The pandas pipeline\<close>

text \<open>
  A DataFrame is the list of its rows. The frames are those \<^verbatim>\<open>read_csv\<close> gives for
  complete files: every cell is present, the columns \<^verbatim>\<open>legal_entity\<close>, \<^verbatim>\<open>counter_party\<close>,
  \<^verbatim>\<open>tier\<close> and \<^verbatim>\<open>status\<close> hold strings, \<^verbatim>\<open>rating\<close> and \<^verbatim>\<open>value\<close> hold integers, and
  the two files share the column \<^verbatim>\<open>counter_party\<close> only. A row of the second file is the
  pair of its \<^verbatim>\<open>counter_party\<close> and its \<^verbatim>\<open>tier\<close>.
\<close>

record entry =
  legal_entity :: string
  counter_party :: string
  rating :: int
  status :: string
  amount :: int \<comment> \<open>the column \<^verbatim>\<open>value\<close>\<close>

record joined = entry +
  tier :: string

text \<open>
  \<^verbatim>\<open>dataset1.merge(dataset2, on="counter_party")\<close>: an inner join, one row for every pair
  of rows with the same key, in the order of the left frame.
\<close>

definition with_tier :: "entry \<Rightarrow> string \<Rightarrow> joined" where
  "with_tier a t =
     \<lparr>legal_entity = legal_entity a, counter_party = counter_party a, rating = rating a,
      status = status a, amount = amount a, tier = t\<rparr>"

definition DataFrame_merge :: "entry list \<Rightarrow> (string \<times> string) list \<Rightarrow> joined list" where
  "DataFrame_merge dataset1 dataset2 =
     concat (map (\<lambda>a. map (\<lambda>b. with_tier a (snd b))
                           (filter (\<lambda>b. fst b = counter_party a) dataset2)) dataset1)"

text \<open>The columns \<^verbatim>\<open>groupby\<close> can group the merged frame by here.\<close>

definition group_column_of :: "string \<Rightarrow> error + (joined \<Rightarrow> string)" where
  "group_column_of c =
     (if c = ''legal_entity'' then Inr legal_entity
      else if c = ''counter_party'' then Inr counter_party
      else if c = ''tier'' then Inr tier
      else Inl KeyError)"

text \<open>
  One row of \<^verbatim>\<open>df.groupby(group_column).agg(...).reset_index()\<close>, for the group \<open>g\<close> with
  the key \<open>k\<close>.
\<close>

definition agg_row :: "string list \<Rightarrow> string list \<Rightarrow> joined list \<Rightarrow> pydict" where
  "agg_row group_column k g =
     fold (\<lambda>(c, v) d. d(Str c \<mapsto> Str v)) (zip group_column k)
       [Str ''total'' \<mapsto> Num (int (length g)),
        Str ''max_rating'' \<mapsto> Num (Max (set (map rating g))),
        Str ''sum_arap'' \<mapsto> Num (sum_list (map amount (filter (\<lambda>r. status r = ''ARAP'') g))),
        Str ''sum_accr'' \<mapsto> Num (sum_list (map amount (filter (\<lambda>r. status r = ''ACCR'') g)))]"

text \<open>\<^verbatim>\<open>if column not in grouped.columns: grouped[column] = grouped['total']\<close>\<close>

definition fill_column :: "string \<Rightarrow> pydict \<Rightarrow> pydict" where
  "fill_column column d = (if d (Str column) = None then d(Str column := d (Str ''total'')) else d)"

definition rename_column :: "string \<Rightarrow> string \<Rightarrow> pydict \<Rightarrow> pydict" where
  "rename_column old new d =
     (case d (Str old) of None \<Rightarrow> d | Some v \<Rightarrow> (d(Str old := None))(Str new \<mapsto> v))"

definition custom_groupby_and_aggregate :: "joined list \<Rightarrow> string list \<Rightarrow> error + pydict list" where
  "custom_groupby_and_aggregate df group_column =
     try_bind (traverse group_column_of group_column) (\<lambda>cols.
       let key_of = (\<lambda>r. map (\<lambda>c. c r) cols);
           grouped = map (\<lambda>k. agg_row group_column k (filter (\<lambda>r. key_of r = k) df))
                         (sort (remdups (map key_of df)));
           filled = map (fold fill_column aggr_columns) grouped;
           dropped = map (\<lambda>d. d(Str ''total'' := None)) filled
       in Inr (map (rename_column ''sum_accr'' ''sum(value where status=ACCR)'' \<circ>
                    rename_column ''sum_arap'' ''sum(value where status=ARAP)'' \<circ>
                    rename_column ''max_rating'' ''max(rating by counterparty)'') dropped))"

definition pandas_group_by_columns :: "string list list" where
  "pandas_group_by_columns =
     [[''legal_entity''], [''counter_party''], [''tier''],
      [''legal_entity'', ''counter_party''], [''counter_party'', ''tier''],
      [''tier'', ''legal_entity''],
      [''legal_entity'', ''counter_party'', ''tier'']]"

text \<open>The loop \<^verbatim>\<open>result_df = result_df.append(grouped_df, ignore_index=True)\<close>.\<close>

fun append_groups :: "joined list \<Rightarrow> string list list \<Rightarrow> pydict list \<Rightarrow> error + pydict list" where
  "append_groups df [] result_df = Inr result_df"
| "append_groups df (group_column # rest) result_df =
     try_bind (custom_groupby_and_aggregate df group_column) (\<lambda>grouped_df.
     append_groups df rest (result_df @ grouped_df))"

definition pandas_main :: "entry list \<Rightarrow> (string \<times> string) list \<Rightarrow> error + pydict list" where
  "pandas_main dataset1 dataset2 =
     append_groups (DataFrame_merge dataset1 dataset2) pandas_group_by_columns []"

section \<open>Notions the properties are stated with\<close>

text \<open>
  A joined record the aggregation can read: its rating is an integer, it has a status,
  and its value is an integer when the status is one of the two that are summed.
\<close>

definition aggregable :: "pydict \<Rightarrow> bool" where
  "aggregable x =
     (\<not> isl (int_item x ''rating'') \<and>
      (case x (Str ''status'') of None \<Rightarrow> False
       | Some s \<Rightarrow> (s = Str ''ARAP'' \<or> s = Str ''ACCR'') \<longrightarrow> \<not> isl (int_item x ''value'')))"



definition rating_of :: "pydict \<Rightarrow> int" where
  "rating_of x = projr (int_item x ''rating'')"

definition value_of :: "pydict \<Rightarrow> int" where
  "value_of x = projr (int_item x ''value'')"

definition has_status :: "string \<Rightarrow> pydict \<Rightarrow> bool" where
  "has_status st x = (x (Str ''status'') = Some (Str st))"

text \<open>The first record of the second dataset with the counter party of an entry.\<close>

definition first_match :: "pydict list \<Rightarrow> pydict \<Rightarrow> pydict option" where
  "first_match dataset2 entry =
     find (\<lambda>b. b (Str ''counter_party'') = entry (Str ''counter_party'')) dataset2"

text \<open>The cells one branch of the Beam pipeline writes for a group key.\<close>

definition written_rows :: "pydict list \<Rightarrow> string list \<Rightarrow> error + pyval list list" where
  "written_rows merged group_by_key =
     try_bind (output_rows merged group_by_key) (traverse row_to_write)"

text \<open>The datasets of the end-to-end example.\<close>

definition example_dataset1 :: "pydict list" where
  "example_dataset1 =
     [[Str ''counter_party'' \<mapsto> Str ''CP1'', Str ''legal_entity'' \<mapsto> Str ''LE1'',
       Str ''rating'' \<mapsto> Str ''5'', Str ''value'' \<mapsto> Str ''100'', Str ''status'' \<mapsto> Str ''ARAP''],
      [Str ''counter_party'' \<mapsto> Str ''CP1'', Str ''legal_entity'' \<mapsto> Str ''LE1'',
       Str ''rating'' \<mapsto> Str ''3'', Str ''value'' \<mapsto> Str ''50'', Str ''status'' \<mapsto> Str ''ACCR'']]"

definition example_dataset2 :: "pydict list" where
  "example_dataset2 = [[Str ''counter_party'' \<mapsto> Str ''CP1'', Str ''tier'' \<mapsto> Str ''T1'']]"

definition example_merged :: "pydict list" where
  "example_merged = map (\<lambda>a. a(Str ''tier'' \<mapsto> Str ''T1'')) example_dataset1"


text \<open>A joined record with a negative value and a status that is not summed.\<close>

definition negative_other :: pydict where
  "negative_other = [Str ''rating'' \<mapsto> Str ''1'', Str ''value'' \<mapsto> Str ''-5'', Str ''status'' \<mapsto> Str ''OTHER'']"



text \<open>Frames with one record of LE1, CP1 and its tier T1.\<close>

definition example_frame1 :: "entry list" where
  "example_frame1 =
     [\<lparr>legal_entity = ''LE1'', counter_party = ''CP1'', rating = 5, status = ''ARAP'', amount = 100\<rparr>]"

definition example_frame2 :: "(string \<times> string) list" where
  "example_frame2 = [(''CP1'', ''T1'')]"

text \<open>The first dataset of the end-to-end example as a frame.\<close>

definition example_frame_two :: "entry list" where
  "example_frame_two =
     [\<lparr>legal_entity = ''LE1'', counter_party = ''CP1'', rating = 5, status = ''ARAP'', amount = 100\<rparr>,
      \<lparr>legal_entity = ''LE1'', counter_party = ''CP1'', rating = 3, status = ''ACCR'', amount = 50\<rparr>]"

text \<open>A first dataset with an entry whose counter party CP2 the second dataset lacks.\<close>

definition unmatched_dataset1 :: "pydict list" where
  "unmatched_dataset1 =
     [[Str ''counter_party'' \<mapsto> Str ''CP1'', Str ''legal_entity'' \<mapsto> Str ''LE1'',
       Str ''rating'' \<mapsto> Str ''5'', Str ''value'' \<mapsto> Str ''100'', Str ''status'' \<mapsto> Str ''ARAP''],
      [Str ''counter_party'' \<mapsto> Str ''CP2'', Str ''legal_entity'' \<mapsto> Str ''LE1'',
       Str ''rating'' \<mapsto> Str ''3'', Str ''value'' \<mapsto> Str ''50'', Str ''status'' \<mapsto> Str ''ACCR'']]"

text \<open>
  The copy of an entry with the tier of the first record of its counter party, when there
  is such a record and it has a tier.
\<close>

definition joined_record :: "pydict list \<Rightarrow> pydict \<Rightarrow> pydict option" where
  "joined_record dataset2 entry =
     (case first_match dataset2 entry of None \<Rightarrow> None
      | Some b \<Rightarrow> (case b (Str ''tier'') of None \<Rightarrow> None
                  | Some t \<Rightarrow> Some (entry(Str ''tier'' \<mapsto> t))))"

text \<open>Two records of the counter party CP1 with different tiers.\<close>

definition two_tier_dataset2 :: "pydict list" where
  "two_tier_dataset2 =
     [[Str ''counter_party'' \<mapsto> Str ''CP1'', Str ''tier'' \<mapsto> Str ''T1''],
      [Str ''counter_party'' \<mapsto> Str ''CP1'', Str ''tier'' \<mapsto> Str ''T2'']]"



section \<open>Evaluation and the error monad\<close>

lemmas int_eval = int_item_def getitem_def int_of_str_def strip_def is_space_def py_nat_def is_digit_def digit_val_def



lemma traverse_Inr_iff:
  "traverse f xs = Inr ys \<longleftrightarrow> list_all2 (\<lambda>x y. f x = Inr y) xs ys"
proof (induction xs arbitrary: ys)
  case Nil
  then show ?case by auto
next
  case (Cons x xs)
  show ?case
  proof (cases "f x")
    case (Inl e)
    then show ?thesis by (auto simp: list_all2_Cons1)
  next
    case (Inr y)
    show ?thesis
    proof (cases "traverse f xs")
      case (Inl e)
      with Inr Cons.IH show ?thesis by (auto simp: list_all2_Cons1)
    next
      case r: (Inr zs)
      with Inr Cons.IH show ?thesis by (auto simp: list_all2_Cons1)
    qed
  qed
qed

lemma traverse_Inl_iff:
  "isl (traverse f xs) \<longleftrightarrow> (\<exists>x\<in>set xs. isl (f x))"
proof (induction xs)
  case Nil
  then show ?case by simp
next
  case (Cons x xs)
  then show ?case by (cases "f x"; cases "traverse f xs") auto
qed


section \<open>Composite keys: joining and splitting\<close>

lemma split_nonempty: "split c s \<noteq> []"
  by (induction s) (auto simp: Let_def)

lemma split_no_sep: "c \<notin> set v \<Longrightarrow> split c v = [v]"
  by (induction v) (auto simp: Let_def)

lemma split_append_sep: "c \<notin> set v \<Longrightarrow> split c (v @ c # rest) = v # split c rest"
  by (induction v) (auto simp: Let_def)

lemma split_join:
  "vs \<noteq> [] \<Longrightarrow> \<forall>v\<in>set vs. c \<notin> set v \<Longrightarrow> split c (join [c] vs) = vs"
  by (induction "[c]" vs rule: join.induct) (auto simp: split_no_sep split_append_sep)

lemma length_split: "length (split c s) = Suc (count_list s c)"
  by (induction s) (auto simp: Let_def split_nonempty)

lemma count_join:
  "vs \<noteq> [] \<Longrightarrow> count_list (join [c] vs) c = (\<Sum>v\<leftarrow>vs. count_list v c) + (length vs - 1)"
  by (induction "[c]" vs rule: join.induct) auto

lemma length_split_join:
  "vs \<noteq> [] \<Longrightarrow> length (split c (join [c] vs)) = length vs + (\<Sum>v\<leftarrow>vs. count_list v c)"
  by (cases vs) (simp_all add: length_split count_join)

lemma hd_split: "hd (split c s) = takeWhile (\<lambda>x. x \<noteq> c) s"
  by (induction s) (auto simp: Let_def)

lemma takeWhile_neq_self: "v = takeWhile (\<lambda>x. x \<noteq> c) v \<longleftrightarrow> c \<notin> set v"
  by (induction v) auto

lemma takeWhile_before_sep: "takeWhile (\<lambda>x. x \<noteq> c) (v @ c # r) = takeWhile (\<lambda>x. x \<noteq> c) v"
  by (induction v) auto

lemma hd_split_join:
  "hd (split c (join [c] (v # vs))) = takeWhile (\<lambda>x. x \<noteq> c) v"
proof (cases vs)
  case Nil
  then show ?thesis by (simp add: hd_split)
next
  case (Cons w ws)
  then show ?thesis by (simp add: hd_split takeWhile_before_sep)
qed

lemma take_split_join:
  "take (length vs) (split c (join [c] vs)) = vs \<Longrightarrow> v \<in> set vs \<Longrightarrow> c \<notin> set v"
proof (induction vs arbitrary: v)
  case Nil
  then show ?case by simp
next
  case (Cons w ws)
  obtain h t where ht: "split c (join [c] (w # ws)) = h # t"
    using split_nonempty by (cases "split c (join [c] (w # ws))") auto
  have "h = takeWhile (\<lambda>x. x \<noteq> c) w"
    using hd_split_join[of c w ws] ht by simp
  moreover from Cons.prems(1) ht have hw: "h = w" and tw: "take (length ws) t = ws" by simp_all
  ultimately have w: "c \<notin> set w" by (simp add: takeWhile_neq_self)
  show ?case
  proof (cases ws)
    case Nil
    with Cons.prems w show ?thesis by simp
  next
    case (Cons x xs)
    then have "split c (join [c] (w # ws)) = w # split c (join [c] ws)"
      using w by (simp add: split_append_sep)
    with ht have "t = split c (join [c] ws)" by simp
    with tw Cons.IH have "\<And>v. v \<in> set ws \<Longrightarrow> c \<notin> set v" by simp
    with Cons.prems w show ?thesis by auto
  qed
qed

lemma traverse_Inr_map:
  "\<forall>x\<in>set xs. f x = Inr (g x) \<Longrightarrow> traverse f xs = Inr (map g xs)"
  by (induction xs) auto

lemma assign_keys_ok:
  "i + length keys \<le> length sk \<Longrightarrow>
   \<exists>d'. assign_keys sk i keys d = Inr d' \<and>
        (\<forall>k. k \<notin> Str ` set keys \<longrightarrow> d' k = d k) \<and>
        (distinct keys \<longrightarrow> (\<forall>j<length keys. d' (Str (keys ! j)) = Some (Str (sk ! (i + j)))))"
proof (induction keys arbitrary: i d)
  case Nil
  then show ?case by simp
next
  case (Cons key keys)
  let ?d = "d(Str key \<mapsto> Str (sk ! i))"
  from Cons.prems have "Suc i + length keys \<le> length sk" by simp
  from Cons.IH[OF this, of ?d] obtain d' where
    d': "assign_keys sk (Suc i) keys ?d = Inr d'"
        "\<forall>k. k \<notin> Str ` set keys \<longrightarrow> d' k = ?d k"
        "distinct keys \<longrightarrow> (\<forall>j<length keys. d' (Str (keys ! j)) = Some (Str (sk ! (Suc i + j))))"
    by blast
  have "assign_keys sk i (key # keys) d = Inr d'"
    using Cons.prems d'(1) by simp
  moreover have "\<forall>k. k \<notin> Str ` set (key # keys) \<longrightarrow> d' k = d k"
    using d'(2) by auto
  moreover have "distinct (key # keys) \<longrightarrow>
      (\<forall>j<length (key # keys). d' (Str ((key # keys) ! j)) = Some (Str (sk ! (i + j))))"
  proof (intro impI allI)
    fix j assume dist: "distinct (key # keys)" and j: "j < length (key # keys)"
    show "d' (Str ((key # keys) ! j)) = Some (Str (sk ! (i + j)))"
    proof (cases j)
      case 0
      from dist have "Str key \<notin> Str ` set keys" by auto
      with d'(2) 0 show ?thesis by simp
    next
      case (Suc j')
      with j dist d'(3) show ?thesis by simp
    qed
  qed
  ultimately show ?case by blast
qed

section \<open>The output formatter\<close>

lemma fold_backfill:
  "fold (backfill n) cols d k =
     (if k \<in> Str ` set cols \<and> d k = None then Some (Num n) else d k)"
  by (induction cols arbitrary: d) (auto simp: backfill_def)

lemma aggr_column_not_header:
  "c \<in> set aggr_columns \<Longrightarrow>
     c \<noteq> ''max(rating by counterparty)'' \<and> c \<noteq> ''sum(value where status=ARAP)'' \<and>
     c \<noteq> ''sum(value where status=ACCR)''"
  by (auto simp: aggr_columns_def)

lemma PrepareOutputData_row:
  assumes len: "length gk \<le> length (split CHR ''-'' key)"
    and sub: "set gk \<subseteq> set aggr_columns"
  shows "\<exists>row. PrepareOutputData gk (key, m, a, c, n) = Inr row \<and>
           (distinct gk \<longrightarrow> (\<forall>j<length gk. row (Str (gk ! j)) = Some (Str (split CHR ''-'' key ! j)))) \<and>
           (\<forall>col\<in>set aggr_columns. col \<notin> set gk \<longrightarrow> row (Str col) = Some (Num n)) \<and>
           row (Str ''max(rating by counterparty)'') = Some (Num m) \<and>
           row (Str ''sum(value where status=ARAP)'') = Some (Num a) \<and>
           row (Str ''sum(value where status=ACCR)'') = Some (Num c)"
proof -
  let ?sk = "split CHR ''-'' key"
  from len have "0 + length gk \<le> length ?sk" by simp
  from assign_keys_ok[OF this, of Map.empty] obtain d where
    d: "assign_keys ?sk 0 gk Map.empty = Inr d"
       "\<forall>k. k \<notin> Str ` set gk \<longrightarrow> d k = None"
       "distinct gk \<longrightarrow> (\<forall>j<length gk. d (Str (gk ! j)) = Some (Str (?sk ! j)))"
    by auto
  let ?row = "(fold (backfill n) aggr_columns d)
               (Str ''max(rating by counterparty)'' \<mapsto> Num m,
                Str ''sum(value where status=ARAP)'' \<mapsto> Num a,
                Str ''sum(value where status=ACCR)'' \<mapsto> Num c)"
  have run: "PrepareOutputData gk (key, m, a, c, n) = Inr ?row"
    by (simp add: PrepareOutputData_def d(1))
  have at_col: "?row (Str col) = fold (backfill n) aggr_columns d (Str col)"
    if "col \<in> set aggr_columns" for col
    using aggr_column_not_header[OF that] by simp
  have keys: "distinct gk \<longrightarrow> (\<forall>j<length gk. ?row (Str (gk ! j)) = Some (Str (?sk ! j)))"
  proof (intro impI allI)
    fix j assume "distinct gk" "j < length gk"
    with d(3) have dj: "d (Str (gk ! j)) = Some (Str (?sk ! j))" by simp
    from \<open>j < length gk\<close> sub have "gk ! j \<in> set aggr_columns" by (auto simp: subset_iff)
    from at_col[OF this] dj show "?row (Str (gk ! j)) = Some (Str (?sk ! j))"
      by (simp add: fold_backfill)
  qed
  have fill: "\<forall>col\<in>set aggr_columns. col \<notin> set gk \<longrightarrow> ?row (Str col) = Some (Num n)"
  proof (intro ballI impI)
    fix col assume col: "col \<in> set aggr_columns" "col \<notin> set gk"
    then have "d (Str col) = None" using d(2) by auto
    with at_col[OF col(1)] col(1) show "?row (Str col) = Some (Num n)"
      by (simp add: fold_backfill)
  qed
  have "?row (Str ''max(rating by counterparty)'') = Some (Num m) \<and>
        ?row (Str ''sum(value where status=ARAP)'') = Some (Num a) \<and>
        ?row (Str ''sum(value where status=ACCR)'') = Some (Num c)"
    by simp
  with run keys fill show ?thesis by blast
qed

lemma CompositeKeyFn_Inr:
  assumes "map (\<lambda>key. element (Str key)) keys = map (\<lambda>v. Some (Str v)) vs"
  shows "CompositeKeyFn keys element = Inr (join ''-'' vs, element)"
proof -
  have "traverse (getitem element) keys = Inr (map Str vs)"
    using assms
  proof (induction keys arbitrary: vs)
    case Nil
    then show ?case by simp
  next
    case (Cons k ks)
    then obtain v ws where "vs = v # ws" by (cases vs) auto
    with Cons show ?case by (simp add: getitem_def)
  qed
  moreover have "traverse the_str (map Str vs) = Inr vs"
    by (induction vs) auto
  ultimately show ?thesis by (simp add: CompositeKeyFn_def)
qed

text \<open>
  C10. The Beam pipeline forms the composite key by joining the group key's attribute values
  with \<^verbatim>\<open>"-"\<close> and recovers them by splitting at \<^verbatim>\<open>"-"\<close>. For a record that has a string
  \<open>vs ! i\<close> at every attribute \<open>keys ! i\<close> of a group key, the composite key is the join of
  \<open>vs\<close>; splitting it gives \<open>vs\<close> back exactly when no value contains the character \<^verbatim>\<open>-\<close>;
  and the output row made from that key has the record's values in its group columns
  exactly under the same condition.
\<close>

theorem composite_key_round_trip:
  assumes ne: "keys \<noteq> []" and dist: "distinct keys" and sub: "set keys \<subseteq> set aggr_columns"
    and vals: "map (\<lambda>key. element (Str key)) keys = map (\<lambda>v. Some (Str v)) vs"
  shows "CompositeKeyFn keys element = Inr (join ''-'' vs, element) \<and>
         (split CHR ''-'' (join ''-'' vs) = vs \<longleftrightarrow> (\<forall>v\<in>set vs. CHR ''-'' \<notin> set v)) \<and>
         (\<exists>row. PrepareOutputData keys (join ''-'' vs, m, a, c, n) = Inr row \<and>
            ((\<forall>key\<in>set keys. row (Str key) = element (Str key)) \<longleftrightarrow>
             (\<forall>v\<in>set vs. CHR ''-'' \<notin> set v)))"
proof -
  let ?sk = "split CHR ''-'' (join ''-'' vs)"
  from vals have len: "length vs = length keys" by (metis length_map)
  with ne have vne: "vs \<noteq> []" by auto
  have at: "element (Str (keys ! j)) = Some (Str (vs ! j))" if "j < length keys" for j
  proof -
    have "map (\<lambda>key. element (Str key)) keys ! j = map (\<lambda>v. Some (Str v)) vs ! j"
      using vals by simp
    with that len show ?thesis by simp
  qed
  have rt: "?sk = vs \<longleftrightarrow> (\<forall>v\<in>set vs. CHR ''-'' \<notin> set v)"
  proof
    assume "?sk = vs"
    then have "take (length vs) ?sk = vs" by simp
    then show "\<forall>v\<in>set vs. CHR ''-'' \<notin> set v"
      using take_split_join[of vs "CHR ''-''"] by auto
  next
    assume "\<forall>v\<in>set vs. CHR ''-'' \<notin> set v"
    with vne show "?sk = vs" using split_join[of vs "CHR ''-''"] by simp
  qed
  have "length keys \<le> length ?sk"
    using length_split_join[OF vne, of "CHR ''-''"] len by simp
  from PrepareOutputData_row[OF this sub, of m a c n] dist obtain row where
    row: "PrepareOutputData keys (join ''-'' vs, m, a, c, n) = Inr row"
         "\<forall>j<length keys. row (Str (keys ! j)) = Some (Str (?sk ! j))"
    by blast
  have "(\<forall>key\<in>set keys. row (Str key) = element (Str key)) \<longleftrightarrow>
        (\<forall>v\<in>set vs. CHR ''-'' \<notin> set v)"
  proof
    assume eq: "\<forall>key\<in>set keys. row (Str key) = element (Str key)"
    have "take (length vs) ?sk = vs"
    proof (rule nth_equalityI)
      show "length (take (length vs) ?sk) = length vs"
        using \<open>length keys \<le> length ?sk\<close> len by simp
    next
      fix j assume "j < length (take (length vs) ?sk)"
      then have j: "j < length keys" using len by simp
      then have "row (Str (keys ! j)) = element (Str (keys ! j))" using eq by simp
      with row(2) at j have "?sk ! j = vs ! j" by simp
      with j len show "take (length vs) ?sk ! j = vs ! j" by simp
    qed
    then show "\<forall>v\<in>set vs. CHR ''-'' \<notin> set v"
      using take_split_join[of vs "CHR ''-''"] by auto
  next
    assume "\<forall>v\<in>set vs. CHR ''-'' \<notin> set v"
    with rt have "?sk = vs" by simp
    show "\<forall>key\<in>set keys. row (Str key) = element (Str key)"
    proof
      fix key assume "key \<in> set keys"
      then obtain j where "j < length keys" "keys ! j = key" by (auto simp: in_set_conv_nth)
      with row(2) at \<open>?sk = vs\<close> show "row (Str key) = element (Str key)" by auto
    qed
  qed
  with CompositeKeyFn_Inr[OF vals] rt row(1) show ?thesis by blast
qed

theorem composite_key_round_trip_witness:
  "CompositeKeyFn [''legal_entity'', ''tier'']
       [Str ''legal_entity'' \<mapsto> Str ''LE1'', Str ''tier'' \<mapsto> Str ''T1''] =
     Inr (''LE1-T1'', [Str ''legal_entity'' \<mapsto> Str ''LE1'', Str ''tier'' \<mapsto> Str ''T1'']) \<and>
   split CHR ''-'' ''LE1-T1'' = [''LE1'', ''T1''] \<and>
   (\<exists>row. PrepareOutputData [''legal_entity'', ''tier''] (''LE1-T1'', 5, 100, 50, 2) = Inr row \<and>
      row (Str ''legal_entity'') = Some (Str ''LE1'') \<and> row (Str ''tier'') = Some (Str ''T1''))"
  using composite_key_round_trip
    [of "[''legal_entity'', ''tier'']"
        "[Str ''legal_entity'' \<mapsto> Str ''LE1'', Str ''tier'' \<mapsto> Str ''T1'']"
        "[''LE1'', ''T1'']" 5 100 50 2]
  by (simp add: aggr_columns_def)

section \<open>The aggregation\<close>

lemma aggregable_rating: "aggregable x \<Longrightarrow> int_item x ''rating'' = Inr (rating_of x)"
  by (cases "int_item x ''rating''") (auto simp: aggregable_def rating_of_def)








section \<open>Grouping\<close>

lemma distinct_uniq_keys: "distinct (uniq_keys ks)"
  by (simp add: uniq_keys_def)

lemma set_uniq_keys: "set (uniq_keys ks) = set ks"
  by (simp add: uniq_keys_def)

lemma sum_list_indicator:
  fixes c :: "'a::comm_monoid_add"
  shows "distinct ks \<Longrightarrow> a \<in> set ks \<Longrightarrow> (\<Sum>k\<leftarrow>ks. if a = k then c else 0) = c"
proof (induction ks)
  case Nil
  then show ?case by simp
next
  case (Cons k ks)
  show ?case
  proof (cases "a = k")
    case True
    with Cons.prems have "a \<notin> set ks" by simp
    then have "(\<Sum>k\<leftarrow>ks. if a = k then c else 0) = 0"
      by (induction ks) auto
    with True show ?thesis by simp
  next
    case False
    with Cons show ?thesis by simp
  qed
qed




lemma try_bind_Inr:
  "try_bind m f = Inr y \<longleftrightarrow> (\<exists>x. m = Inr x \<and> f x = Inr y)"
  by (cases m) auto

lemma ExtractAndSum_InrE:
  assumes "ExtractAndSum (key, data) = Inr agg"
  obtains r rs araps accrs where
    "traverse (\<lambda>x. int_item x ''rating'') data = Inr (r # rs)"
    "status_values ''ARAP'' data = Inr araps"
    "status_values ''ACCR'' data = Inr accrs"
    "agg = (key, fold max rs r, sum_list araps, sum_list accrs, int (length data))"
proof -
  from assms obtain ratings where
    ratings: "traverse (\<lambda>x. int_item x ''rating'') data = Inr ratings"
    and rest: "(case ratings of [] \<Rightarrow> Inl ValueError
        | r # rs \<Rightarrow>
            try_bind (status_values ''ARAP'' data) (\<lambda>araps.
            try_bind (status_values ''ACCR'' data) (\<lambda>accrs.
            Inr (key, fold max rs r, sum_list araps, sum_list accrs, int (length data))))) = Inr agg"
    by (auto simp: ExtractAndSum_def try_bind_Inr)
  from rest obtain r rs where rs: "ratings = r # rs" by (cases ratings) auto
  with rest obtain araps accrs where
    "status_values ''ARAP'' data = Inr araps" "status_values ''ACCR'' data = Inr accrs"
    "agg = (key, fold max rs r, sum_list araps, sum_list accrs, int (length data))"
    by (auto simp: try_bind_Inr)
  with ratings rs that show thesis by blast
qed



lemma list_all2_sum_list:
  "list_all2 P xs ys \<Longrightarrow> (\<And>x y. P x y \<Longrightarrow> f x = g y) \<Longrightarrow>
     sum_list (map f xs) = sum_list (map g ys)"
  by (induction rule: list_all2_induct) auto







section \<open>The status sums against the sum of all values\<close>

lemma status_values_Inr:
  "status_values st data = Inr vs \<Longrightarrow> vs = map value_of (filter (has_status st) data)"
proof (induction data arbitrary: vs)
  case Nil
  then show ?case by simp
next
  case (Cons x xs)
  from Cons.prems obtain s where s: "getitem x ''status'' = Inr s"
    by (auto simp: try_bind_Inr)
  then have hs: "has_status st x \<longleftrightarrow> s = Str st"
    by (auto simp: getitem_def has_status_def split: option.splits)
  show ?case
  proof (cases "s = Str st")
    case True
    with Cons.prems s obtain v ws where
      v: "int_item x ''value'' = Inr v" and ws: "status_values st xs = Inr ws" and vs: "vs = v # ws"
      by (auto simp: try_bind_Inr)
    from v have "value_of x = v" by (simp add: value_of_def)
    with Cons.IH[OF ws] vs hs True show ?thesis by simp
  next
    case False
    with Cons.prems s have "status_values st xs = Inr vs" by simp
    with Cons.IH hs False show ?thesis by simp
  qed
qed

lemma not_both_status: "has_status ''ARAP'' x \<Longrightarrow> \<not> has_status ''ACCR'' x"
  by (simp add: has_status_def)

lemma two_status_sums:
  "(\<Sum>x\<leftarrow>filter (has_status ''ARAP'') data. value_of x) +
   (\<Sum>x\<leftarrow>filter (has_status ''ACCR'') data. value_of x) +
   (\<Sum>x\<leftarrow>filter (\<lambda>x. \<not> has_status ''ARAP'' x \<and> \<not> has_status ''ACCR'' x) data. value_of x) =
   (\<Sum>x\<leftarrow>data. value_of x)"
  by (induction data) (auto dest: not_both_status)

text \<open>
  C8, as the code has it. Python's \<^verbatim>\<open>int\<close> reads negative numbers, so the bound needs the
  values to be non-negative: when \<^verbatim>\<open>ExtractAndSum\<close> returns for a partition whose members
  all have a non-negative integer value, \<open>sum_arap + sum_accr\<close> is at most the sum of the
  values of all members, and the two are equal exactly when every member whose status is
  neither ARAP nor ACCR has the value 0.
\<close>

theorem status_sums_bounded:
  assumes run: "ExtractAndSum (key, data) = Inr (k, m, sum_arap, sum_accr, n)"
    and ints: "\<forall>x\<in>set data. \<exists>v. int_item x ''value'' = Inr v \<and> 0 \<le> v"
  shows "sum_arap + sum_accr \<le> (\<Sum>x\<leftarrow>data. value_of x) \<and>
         (sum_arap + sum_accr = (\<Sum>x\<leftarrow>data. value_of x) \<longleftrightarrow>
            (\<forall>x\<in>set data. has_status ''ARAP'' x \<or> has_status ''ACCR'' x \<or> value_of x = 0))"
proof -
  from ints have nonneg: "\<forall>x\<in>set data. 0 \<le> value_of x"
    by (auto simp: value_of_def)
  let ?others = "filter (\<lambda>x. \<not> has_status ''ARAP'' x \<and> \<not> has_status ''ACCR'' x) data"
  from run obtain araps accrs where
    "status_values ''ARAP'' data = Inr araps" "status_values ''ACCR'' data = Inr accrs"
    "sum_arap = sum_list araps" "sum_accr = sum_list accrs"
    by (auto elim!: ExtractAndSum_InrE)
  then have sa: "sum_arap = (\<Sum>x\<leftarrow>filter (has_status ''ARAP'') data. value_of x)"
    and sc: "sum_accr = (\<Sum>x\<leftarrow>filter (has_status ''ACCR'') data. value_of x)"
    by (auto dest: status_values_Inr)
  have split: "sum_arap + sum_accr + (\<Sum>x\<leftarrow>?others. value_of x) = (\<Sum>x\<leftarrow>data. value_of x)"
    using two_status_sums[of data] sa sc by simp
  have pos: "\<forall>v\<in>set (map value_of ?others). 0 \<le> v"
    using nonneg by auto
  have ge: "0 \<le> (\<Sum>x\<leftarrow>?others. value_of x)"
    by (rule sum_list_nonneg) (use pos in blast)
  have "(\<Sum>x\<leftarrow>?others. value_of x) = 0 \<longleftrightarrow> (\<forall>v\<in>set (map value_of ?others). v = 0)"
    using pos by (intro sum_list_nonneg_eq_0_iff) auto
  also have "\<dots> \<longleftrightarrow> (\<forall>x\<in>set data. has_status ''ARAP'' x \<or> has_status ''ACCR'' x \<or> value_of x = 0)"
    by auto
  finally have "(\<Sum>x\<leftarrow>?others. value_of x) = 0 \<longleftrightarrow>
      (\<forall>x\<in>set data. has_status ''ARAP'' x \<or> has_status ''ACCR'' x \<or> value_of x = 0)" .
  with split ge show ?thesis by auto
qed

text \<open>
  C8 as stated fails on a partition with one member of another status and the value -5:
  both sums are 0, and 0 is above the sum of the values.
\<close>

theorem status_sums_counterexample:
  "ExtractAndSum (''T1'', [negative_other]) = Inr (''T1'', 1, 0, 0, 1) \<and>
   int_item negative_other ''value'' = Inr (- 5) \<and>
   \<not> (0 + 0 \<le> sum_list (map value_of [negative_other]))"
  by (simp add: ExtractAndSum_def negative_other_def value_of_def int_eval)

theorem status_sums_bounded_witness:
  "ExtractAndSum (''LE1-CP1-T1'', example_merged) =
      Inr (''LE1-CP1-T1'', 5, 100, 50, 2) \<and>
   (100::int) + 50 \<le> (\<Sum>x\<leftarrow>example_merged. value_of x)"
proof -
  have run: "ExtractAndSum (''LE1-CP1-T1'', example_merged) =
      Inr (''LE1-CP1-T1'', 5, 100, 50, 2)"
    by (simp add: ExtractAndSum_def example_merged_def example_dataset1_def int_eval)
  have nonneg: "\<forall>x\<in>set example_merged.
      \<exists>v. int_item x ''value'' = Inr v \<and> 0 \<le> v"
    by (simp add: example_merged_def example_dataset1_def int_eval)
  from status_sums_bounded[OF run nonneg] run show ?thesis by blast
qed

section \<open>From aggregates to output rows\<close>


















section \<open>The writer\<close>

lemma SaveOutputToCsv_Inr:
  "SaveOutputToCsv file element = Inr file' \<longleftrightarrow>
     (\<exists>rows. traverse row_to_write element = Inr rows \<and>
        file' = (if file = [] then [map Str headers] else file) @ rows)"
  by (auto simp: SaveOutputToCsv_def Let_def try_bind_Inr)

lemma grouped_data_Inr:
  assumes "grouped_data merged gk file = Inr file'"
  shows "\<exists>rows. written_rows merged gk = Inr rows \<and>
           file' = (if file = [] then [map Str headers] else file) @ rows"
proof -
  from assms obtain element where "output_rows merged gk = Inr element"
    "SaveOutputToCsv file element = Inr file'"
    by (auto simp: grouped_data_def try_bind_Inr)
  then show ?thesis by (auto simp: SaveOutputToCsv_Inr written_rows_def)
qed

lemma run_branches_Inr:
  "run_branches merged gks file = Inr out \<Longrightarrow>
     \<exists>rowss. list_all2 (\<lambda>gk rows. written_rows merged gk = Inr rows) gks rowss \<and>
        out = (if file = [] \<and> gks \<noteq> [] then [map Str headers] else file) @ concat rowss"
proof (induction gks arbitrary: "file")
  case Nil
  then show ?case by simp
next
  case (Cons gk gks)
  from Cons.prems obtain file1 where
    f1: "grouped_data merged gk file = Inr file1" and rest: "run_branches merged gks file1 = Inr out"
    by (auto simp: try_bind_Inr)
  from grouped_data_Inr[OF f1] obtain rows where
    rows: "written_rows merged gk = Inr rows"
      "file1 = (if file = [] then [map Str headers] else file) @ rows"
    by blast
  then have ne: "file1 \<noteq> []" by auto
  from Cons.IH[OF rest] ne obtain rowss where
    rowss: "list_all2 (\<lambda>gk rows. written_rows merged gk = Inr rows) gks rowss"
      "out = file1 @ concat rowss"
    by auto
  have "list_all2 (\<lambda>gk rows. written_rows merged gk = Inr rows) (gk # gks) (rows # rowss)"
    using rows(1) rowss(1) by simp
  moreover have "out = (if file = [] \<and> gk # gks \<noteq> [] then [map Str headers] else file) @ concat (rows # rowss)"
    using rows(2) rowss(2) by simp
  ultimately show ?case by blast
qed

lemma PrepareOutputData_max_column:
  "PrepareOutputData gk agg = Inr row \<Longrightarrow> \<exists>m. row (Str ''max(rating by counterparty)'') = Some (Num m)"
  by (cases agg) (auto simp: PrepareOutputData_def try_bind_Inr)

lemma row_to_write_not_header:
  assumes "row (Str ''max(rating by counterparty)'') = Some (Num m)" "row_to_write row = Inr cells"
  shows "cells \<noteq> map Str headers"
proof -
  from assms(2) have "list_all2 (\<lambda>h c. getitem row h = Inr c) headers cells"
    by (simp add: row_to_write_def traverse_Inr_iff)
  moreover have "3 < length headers" by (simp add: headers_def)
  ultimately have "getitem row (headers ! 3) = Inr (cells ! 3)"
    by (rule list_all2_nthD)
  with assms(1) have "cells ! 3 = Num m" by (simp add: headers_def getitem_def)
  then show ?thesis by (auto simp: headers_def)
qed

lemma written_rows_not_header:
  assumes "written_rows merged gk = Inr rows"
  shows "map Str headers \<notin> set rows"
proof
  assume "map Str headers \<in> set rows"
  from assms obtain element where el: "output_rows merged gk = Inr element"
    "traverse row_to_write element = Inr rows"
    by (auto simp: written_rows_def try_bind_Inr)
  from el(1) obtain aggs where "traverse (PrepareOutputData gk) aggs = Inr element"
    by (auto simp: output_rows_def try_bind_Inr)
  then have prep: "list_all2 (\<lambda>agg row. PrepareOutputData gk agg = Inr row) aggs element"
    by (simp add: traverse_Inr_iff)
  from el(2) have wr: "list_all2 (\<lambda>row cells. row_to_write row = Inr cells) element rows"
    by (simp add: traverse_Inr_iff)
  from \<open>map Str headers \<in> set rows\<close> obtain i where i: "i < length rows" "rows ! i = map Str headers"
    by (auto simp: in_set_conv_nth)
  with wr have w: "row_to_write (element ! i) = Inr (map Str headers)" and ie: "i < length element"
    by (auto simp: list_all2_conv_all_nth)
  with prep have "PrepareOutputData gk (aggs ! i) = Inr (element ! i)"
    by (auto simp: list_all2_conv_all_nth)
  from PrepareOutputData_max_column[OF this] obtain m where
    "(element ! i) (Str ''max(rating by counterparty)'') = Some (Num m)" by blast
  from row_to_write_not_header[OF this w] show False by simp
qed

lemma count_header_once:
  assumes "list_all2 (\<lambda>gk rows. written_rows merged gk = Inr rows) gks rowss"
  shows "count_list (map Str headers # concat rowss) (map Str headers) = 1"
proof -
  have "map Str headers \<notin> set (concat rowss)"
  proof
    assume "map Str headers \<in> set (concat rowss)"
    then obtain rows where "rows \<in> set rowss" "map Str headers \<in> set rows" by auto
    moreover then obtain gk where "written_rows merged gk = Inr rows"
      using assms by (auto simp: list_all2_conv_all_nth in_set_conv_nth)
    ultimately show False using written_rows_not_header by blast
  qed
  then show ?thesis by (simp add: count_list_0_iff)
qed

text \<open>
  C9. \<^verbatim>\<open>SaveOutputToCsv\<close> returns exactly when every row has the six columns, and then
  the file is the old file followed by the rows, after the header row if and only if the
  old file was empty. So the branches of a run that starts on an empty file leave the
  header row once, at the top, followed by the rows of all branches; and a run on a file
  that is not empty appends its rows and no header.
\<close>

theorem writer_appends_with_one_header:
  "(SaveOutputToCsv file element = Inr file' \<longleftrightarrow>
      (\<exists>rows. traverse row_to_write element = Inr rows \<and>
         file' = (if file = [] then [map Str headers] else file) @ rows)) \<and>
   (gks \<noteq> [] \<longrightarrow> run_branches merged gks [] = Inr out \<longrightarrow>
      (\<exists>rowss. list_all2 (\<lambda>gk rows. written_rows merged gk = Inr rows) gks rowss \<and>
         out = map Str headers # concat rowss \<and> count_list out (map Str headers) = 1)) \<and>
   (file \<noteq> [] \<longrightarrow> run_branches merged gks file = Inr out \<longrightarrow>
      (\<exists>rowss. list_all2 (\<lambda>gk rows. written_rows merged gk = Inr rows) gks rowss \<and>
         out = file @ concat rowss))"
proof (intro conjI impI)
  show "SaveOutputToCsv file element = Inr file' \<longleftrightarrow>
      (\<exists>rows. traverse row_to_write element = Inr rows \<and>
         file' = (if file = [] then [map Str headers] else file) @ rows)"
    by (rule SaveOutputToCsv_Inr)
next
  assume ne: "gks \<noteq> []" and run: "run_branches merged gks [] = Inr out"
  from run_branches_Inr[OF run] ne obtain rowss where
    rowss: "list_all2 (\<lambda>gk rows. written_rows merged gk = Inr rows) gks rowss"
      "out = map Str headers # concat rowss"
    by auto
  from count_header_once[OF rowss(1)] rowss(2)
  have "count_list out (map Str headers) = 1" by simp
  with rowss show "\<exists>rowss. list_all2 (\<lambda>gk rows. written_rows merged gk = Inr rows) gks rowss \<and>
         out = map Str headers # concat rowss \<and> count_list out (map Str headers) = 1"
    by (intro exI[of _ rowss] conjI)
next
  assume ne: "file \<noteq> []" and run: "run_branches merged gks file = Inr out"
  from run_branches_Inr[OF run] ne
  show "\<exists>rowss. list_all2 (\<lambda>gk rows. written_rows merged gk = Inr rows) gks rowss \<and>
         out = file @ concat rowss"
    by auto
qed


lemmas beam_eval = run_branches.simps grouped_data_def output_rows_def aggregates_def CompositeKeyFn_def
  GroupBy_def uniq_keys_def values_of_def ExtractAndSum_def PrepareOutputData_def backfill_def
  aggr_columns_def SaveOutputToCsv_def row_to_write_def headers_def int_eval

lemma example_two_branches:
  "run_branches example_merged [[''tier''], [''counter_party'']] [] =
     Inr [map Str headers,
          [Num 2, Num 2, Str ''T1'', Num 5, Num 100, Num 50],
          [Num 2, Str ''CP1'', Num 2, Num 5, Num 100, Num 50]]"
  by (simp add: example_merged_def example_dataset1_def beam_eval)

theorem writer_appends_with_one_header_witness:
  "run_branches example_merged [[''tier''], [''counter_party'']] [] =
     Inr [map Str headers,
          [Num 2, Num 2, Str ''T1'', Num 5, Num 100, Num 50],
          [Num 2, Str ''CP1'', Num 2, Num 5, Num 100, Num 50]] \<and>
   count_list [map Str headers,
          [Num 2, Num 2, Str ''T1'', Num 5, Num 100, Num 50],
          [Num 2, Str ''CP1'', Num 2, Num 5, Num 100, Num 50]] (map Str headers) = 1"
proof -
  have ne: "[[''tier''], [''counter_party'']] \<noteq> []" by simp
  from writer_appends_with_one_header[THEN conjunct2, THEN conjunct1, rule_format,
      OF ne example_two_branches]
  have "count_list [map Str headers,
          [Num 2, Num 2, Str ''T1'', Num 5, Num 100, Num 50],
          [Num 2, Str ''CP1'', Num 2, Num 5, Num 100, Num 50]] (map Str headers) = 1"
    by (elim exE conjE)
  with example_two_branches show ?thesis by (intro conjI)
qed

section \<open>The pandas pipeline on the example\<close>

text \<open>
  On the end-to-end example the pandas pipeline computes, for the group key of all three
  attributes, the row LE1, CP1, T1 with 5, 100 and 50, and for \<^verbatim>\<open>[tier]\<close> the row of T1
  with the count 2 as legal_entity and as counter_party.
\<close>

lemma pandas_example:
  "(case custom_groupby_and_aggregate (DataFrame_merge example_frame_two example_frame2)
           [''legal_entity'', ''counter_party'', ''tier''] of
      Inl e \<Rightarrow> False
    | Inr rows \<Rightarrow> map (\<lambda>row. map (\<lambda>h. row (Str h)) headers) rows =
        [[Some (Str ''LE1''), Some (Str ''CP1''), Some (Str ''T1''), Some (Num 5), Some (Num 100), Some (Num 50)]]) \<and>
   (case custom_groupby_and_aggregate (DataFrame_merge example_frame_two example_frame2) [''tier''] of
      Inl e \<Rightarrow> False
    | Inr rows \<Rightarrow> map (\<lambda>row. map (\<lambda>h. row (Str h)) headers) rows =
        [[Some (Num 2), Some (Num 2), Some (Str ''T1''), Some (Num 5), Some (Num 100), Some (Num 50)]])"
  by code_simp

section \<open>The order of the rows\<close>

lemmas pandas_eval = pandas_main_def DataFrame_merge_def with_tier_def pandas_group_by_columns_def
  custom_groupby_and_aggregate_def group_column_of_def agg_row_def fill_column_def rename_column_def
  aggr_columns_def Let_def

lemma append_groups_Inr:
  "append_groups df gcs acc = Inr out \<Longrightarrow>
     \<exists>groups. list_all2 (\<lambda>gc rows. custom_groupby_and_aggregate df gc = Inr rows) gcs groups \<and>
        out = acc @ concat groups"
proof (induction gcs arbitrary: acc)
  case Nil
  then show ?case by simp
next
  case (Cons gc gcs)
  from Cons.prems obtain rows where
    rows: "custom_groupby_and_aggregate df gc = Inr rows"
    and rest: "append_groups df gcs (acc @ rows) = Inr out"
    by (auto simp: try_bind_Inr)
  from Cons.IH[OF rest] obtain groups where
    groups: "list_all2 (\<lambda>gc rows. custom_groupby_and_aggregate df gc = Inr rows) gcs groups"
      "out = (acc @ rows) @ concat groups"
    by blast
  have "list_all2 (\<lambda>gc rows. custom_groupby_and_aggregate df gc = Inr rows) (gc # gcs) (rows # groups)"
    using rows groups(1) by simp
  moreover have "out = acc @ concat (rows # groups)" using groups(2) by simp
  ultimately show ?case by blast
qed

lemma group_column_of_total:
  "set gc \<subseteq> set aggr_columns \<Longrightarrow> \<exists>cols. traverse group_column_of gc = Inr cols"
proof (induction gc)
  case Nil
  then show ?case by simp
next
  case (Cons c gc)
  then obtain cols where "traverse group_column_of gc = Inr cols" by auto
  moreover from Cons.prems have "\<exists>f. group_column_of c = Inr f"
    by (auto simp: group_column_of_def aggr_columns_def)
  ultimately show ?case by auto
qed

lemma custom_groupby_total:
  "set gc \<subseteq> set aggr_columns \<Longrightarrow> \<exists>rows. custom_groupby_and_aggregate df gc = Inr rows"
  using group_column_of_total[of gc]
  by (auto simp: custom_groupby_and_aggregate_def Let_def)

lemma append_groups_total:
  "\<forall>gc\<in>set gcs. set gc \<subseteq> set aggr_columns \<Longrightarrow> \<exists>out. append_groups df gcs acc = Inr out"
proof (induction gcs arbitrary: acc)
  case Nil
  then show ?case by simp
next
  case (Cons gc gcs)
  then obtain rows where "custom_groupby_and_aggregate df gc = Inr rows"
    using custom_groupby_total[of gc df] by auto
  moreover from Cons obtain out where "append_groups df gcs (acc @ rows) = Inr out" by fastforce
  ultimately show ?case by auto
qed

lemma pandas_main_order:
  "\<exists>groups. pandas_main dataset1 dataset2 = Inr (concat groups) \<and>
     list_all2 (\<lambda>gc rows. custom_groupby_and_aggregate (DataFrame_merge dataset1 dataset2) gc = Inr rows)
       [[''legal_entity''], [''counter_party''], [''tier''],
        [''legal_entity'', ''counter_party''], [''counter_party'', ''tier''],
        [''tier'', ''legal_entity''],
        [''legal_entity'', ''counter_party'', ''tier'']] groups"
proof -
  have "\<forall>gc\<in>set pandas_group_by_columns. set gc \<subseteq> set aggr_columns"
    by (simp add: pandas_group_by_columns_def aggr_columns_def)
  from append_groups_total[OF this] obtain out where
    out: "append_groups (DataFrame_merge dataset1 dataset2) pandas_group_by_columns [] = Inr out"
    by blast
  from append_groups_Inr[OF out] obtain groups where
    "list_all2 (\<lambda>gc rows. custom_groupby_and_aggregate (DataFrame_merge dataset1 dataset2) gc = Inr rows)
       pandas_group_by_columns groups" "out = concat groups"
    by auto
  with out show ?thesis
    unfolding pandas_main_def pandas_group_by_columns_def by blast
qed

lemma beam_order:
  assumes "run_branches merged group_by_columns [] = Inr out"
  shows "\<exists>rowss. list_all2 (\<lambda>gk rows. written_rows merged gk = Inr rows)
       [[''tier''], [''counter_party''], [''legal_entity''],
        [''legal_entity'', ''counter_party''], [''counter_party'', ''tier''],
        [''tier'', ''legal_entity''],
        [''legal_entity'', ''counter_party'', ''tier'']] rowss \<and>
      out = map Str headers # concat rowss"
  using run_branches_Inr[OF assms] unfolding group_by_columns_def by simp

text \<open>
  C5 as stated fails on the pandas pipeline: for one record of LE1, CP1, T1 the first row
  of the result is the row of the group key \<^verbatim>\<open>[legal_entity]\<close> (its tier is the count 1),
  and the row of \<^verbatim>\<open>[tier]\<close> is the third.
\<close>

theorem pandas_order_counterexample:
  "(case pandas_main example_frame1 example_frame2 of Inl e \<Rightarrow> False
    | Inr rows \<Rightarrow>
        (rows ! 0) (Str ''legal_entity'') = Some (Str ''LE1'') \<and>
        (rows ! 0) (Str ''tier'') = Some (Num 1) \<and>
        (rows ! 2) (Str ''tier'') = Some (Str ''T1'') \<and>
        (rows ! 2) (Str ''legal_entity'') = Some (Num 1))"
  by code_simp

text \<open>
  C5, as the code has it. The pandas pipeline always returns, and its result is the rows
  of the group keys \<^verbatim>\<open>[legal_entity]\<close>, \<^verbatim>\<open>[counter_party]\<close>, \<^verbatim>\<open>[tier]\<close>,
  \<^verbatim>\<open>[legal_entity, counter_party]\<close>, \<^verbatim>\<open>[counter_party, tier]\<close>, \<^verbatim>\<open>[tier, legal_entity]\<close>,
  \<^verbatim>\<open>[legal_entity, counter_party, tier]\<close>, one group key after the other in this order.
  The Beam pipeline, its branches run one after another in the order the loop builds
  them, writes the header and then the rows of \<^verbatim>\<open>[tier]\<close>, \<^verbatim>\<open>[counter_party]\<close>,
  \<^verbatim>\<open>[legal_entity]\<close>, \<^verbatim>\<open>[legal_entity, counter_party]\<close>, \<^verbatim>\<open>[counter_party, tier]\<close>,
  \<^verbatim>\<open>[tier, legal_entity]\<close>, \<^verbatim>\<open>[legal_entity, counter_party, tier]\<close> in this order.
\<close>

theorem rows_in_group_key_order:
  "(\<exists>groups. pandas_main dataset1 dataset2 = Inr (concat groups) \<and>
     list_all2 (\<lambda>gc rows. custom_groupby_and_aggregate (DataFrame_merge dataset1 dataset2) gc = Inr rows)
       [[''legal_entity''], [''counter_party''], [''tier''],
        [''legal_entity'', ''counter_party''], [''counter_party'', ''tier''],
        [''tier'', ''legal_entity''],
        [''legal_entity'', ''counter_party'', ''tier'']] groups) \<and>
   (run_branches merged group_by_columns [] = Inr out \<longrightarrow>
     (\<exists>rowss. list_all2 (\<lambda>gk rows. written_rows merged gk = Inr rows)
       [[''tier''], [''counter_party''], [''legal_entity''],
        [''legal_entity'', ''counter_party''], [''counter_party'', ''tier''],
        [''tier'', ''legal_entity''],
        [''legal_entity'', ''counter_party'', ''tier'']] rowss \<and>
      out = map Str headers # concat rowss))"
  using pandas_main_order beam_order by (intro conjI impI)

lemma example_run:
  "run_branches example_merged group_by_columns [] =
     Inr [map Str headers,
          [Num 2, Num 2, Str ''T1'', Num 5, Num 100, Num 50],
          [Num 2, Str ''CP1'', Num 2, Num 5, Num 100, Num 50],
          [Str ''LE1'', Num 2, Num 2, Num 5, Num 100, Num 50],
          [Str ''LE1'', Str ''CP1'', Num 2, Num 5, Num 100, Num 50],
          [Num 2, Str ''CP1'', Str ''T1'', Num 5, Num 100, Num 50],
          [Str ''LE1'', Num 2, Str ''T1'', Num 5, Num 100, Num 50],
          [Str ''LE1'', Str ''CP1'', Str ''T1'', Num 5, Num 100, Num 50]]"
  by (simp add: example_merged_def example_dataset1_def group_by_columns_def beam_eval)

theorem rows_in_group_key_order_witness:
  "\<exists>rowss. list_all2 (\<lambda>gk rows. written_rows example_merged gk = Inr rows)
       [[''tier''], [''counter_party''], [''legal_entity''],
        [''legal_entity'', ''counter_party''], [''counter_party'', ''tier''],
        [''tier'', ''legal_entity''],
        [''legal_entity'', ''counter_party'', ''tier'']] rowss \<and>
     [map Str headers,
          [Num 2, Num 2, Str ''T1'', Num 5, Num 100, Num 50],
          [Num 2, Str ''CP1'', Num 2, Num 5, Num 100, Num 50],
          [Str ''LE1'', Num 2, Num 2, Num 5, Num 100, Num 50],
          [Str ''LE1'', Str ''CP1'', Num 2, Num 5, Num 100, Num 50],
          [Num 2, Str ''CP1'', Str ''T1'', Num 5, Num 100, Num 50],
          [Str ''LE1'', Num 2, Str ''T1'', Num 5, Num 100, Num 50],
          [Str ''LE1'', Str ''CP1'', Str ''T1'', Num 5, Num 100, Num 50]] =
       map Str headers # concat rowss"
  by (rule rows_in_group_key_order[THEN conjunct2, rule_format, OF example_run])

section \<open>The join\<close>

lemma key_by_counter_party_Inr:
  assumes "key_by_counter_party ds = Inr kvs"
  shows "kvs = map (\<lambda>d. (the (d (Str ''counter_party'')), d)) ds"
    and "\<forall>d\<in>set ds. d (Str ''counter_party'') \<noteq> None"
proof -
  from assms have all: "list_all2 (\<lambda>d kv. try_bind (getitem d ''counter_party'') (\<lambda>k. Inr (k, d)) = Inr kv) ds kvs"
    by (simp add: key_by_counter_party_def traverse_Inr_iff)
  have step: "kv = (the (d (Str ''counter_party'')), d) \<and> d (Str ''counter_party'') \<noteq> None"
    if "try_bind (getitem d ''counter_party'') (\<lambda>k. Inr (k, d)) = Inr kv" for d kv
    using that by (auto simp: try_bind_Inr getitem_def split: option.splits)
  from all show "kvs = map (\<lambda>d. (the (d (Str ''counter_party'')), d)) ds"
    by (induction rule: list_all2_induct) (auto dest: step)
  from all show "\<forall>d\<in>set ds. d (Str ''counter_party'') \<noteq> None"
    by (induction rule: list_all2_induct) (auto dest: step)
qed

lemma values_of_keyed:
  assumes "\<forall>d\<in>set ds. d (Str ''counter_party'') \<noteq> None"
  shows "values_of k (map (\<lambda>d. (the (d (Str ''counter_party'')), d)) ds) =
         filter (\<lambda>d. d (Str ''counter_party'') = Some k) ds"
  using assms by (induction ds) (auto simp: values_of_def)

lemma find_filter: "find P xs = (case filter P xs of [] \<Rightarrow> None | x # _ \<Rightarrow> Some x)"
  by (induction xs) auto

lemma unmatched_raises:
  assumes mem: "entry \<in> set dataset1" and none: "first_match dataset2 entry = None"
  shows "isl (merged_data dataset1 dataset2)"
proof (cases "key_by_counter_party dataset1")
  case (Inl e)
  then show ?thesis by (simp add: merged_data_def)
next
  case kv1: (Inr kv1)
  show ?thesis
  proof (cases "key_by_counter_party dataset2")
    case (Inl e)
    with kv1 show ?thesis by (simp add: merged_data_def)
  next
    case kv2: (Inr kv2)
    note k1 = key_by_counter_party_Inr[OF kv1] and k2 = key_by_counter_party_Inr[OF kv2]
    from k1(2) mem obtain k where k: "entry (Str ''counter_party'') = Some k" by auto
    let ?g = "(k, values_of k kv1, values_of k kv2)"
    have "k \<in> set (map fst kv1)" using k1(1) mem k by (force simp: image_iff)
    then have g: "?g \<in> set (CoGroupByKey kv1 kv2)"
      by (auto simp: CoGroupByKey_def set_uniq_keys)
    have v1: "entry \<in> set (values_of k kv1)"
      using mem k by (simp add: k1(1) values_of_keyed[OF k1(2)])
    have "filter (\<lambda>b. b (Str ''counter_party'') = Some k) dataset2 = []"
      using none k by (simp add: first_match_def find_filter split: list.splits)
    then have v2: "values_of k kv2 = []"
      by (simp add: k2(1) values_of_keyed[OF k2(2)])
    from v1 obtain x xs where "values_of k kv1 = x # xs" by (cases "values_of k kv1") auto
    with v2 have "isl (ReshapeData ?g)" by (simp add: ReshapeData_def)
    with g have "isl (traverse ReshapeData (CoGroupByKey kv1 kv2))"
      unfolding traverse_Inl_iff by blast
    then show ?thesis
      by (cases "traverse ReshapeData (CoGroupByKey kv1 kv2)") (simp_all add: merged_data_def kv1 kv2)
  qed
qed

text \<open>
  C3 fails on the Beam pipeline. An entry of the first dataset whose counter party no
  record of the second dataset has is not dropped: its group has an empty
  \<^verbatim>\<open>dataset2\<close>, \<^verbatim>\<open>dataset2[0]\<close> raises, and the join returns no records at all. With the
  first dataset of the example and one more entry of the counter party CP2 the join
  raises \<^verbatim>\<open>IndexError\<close>.
\<close>

theorem unmatched_record_raises:
  "entry \<in> set dataset1 \<Longrightarrow> first_match dataset2 entry = None \<Longrightarrow>
     isl (merged_data dataset1 dataset2)"
  by (rule unmatched_raises)

theorem unmatched_record_raises_witness:
  "first_match example_dataset2 (unmatched_dataset1 ! 1) = None \<and>
   merged_data unmatched_dataset1 example_dataset2 = Inl IndexError \<and>
   isl (merged_data unmatched_dataset1 example_dataset2)"
proof -
  have mem: "unmatched_dataset1 ! 1 \<in> set unmatched_dataset1"
    by (simp add: unmatched_dataset1_def)
  have none: "first_match example_dataset2 (unmatched_dataset1 ! 1) = None"
    by (simp add: first_match_def example_dataset2_def unmatched_dataset1_def)
  have run: "merged_data unmatched_dataset1 example_dataset2 = Inl IndexError"
    by (simp add: merged_data_def unmatched_dataset1_def example_dataset2_def key_by_counter_party_def
        getitem_def CoGroupByKey_def uniq_keys_def values_of_def ReshapeData_def)
  from unmatched_record_raises[OF mem none] none run show ?thesis by (intro conjI)
qed

lemma mset_partition:
  "distinct ks \<Longrightarrow> f ` set xs \<subseteq> set ks \<Longrightarrow>
     (\<Sum>k\<leftarrow>ks. mset (filter (\<lambda>x. f x = k) xs)) = mset xs"
proof (induction xs)
  case Nil
  then show ?case by (induction ks) auto
next
  case (Cons x xs)
  have "(\<Sum>k\<leftarrow>ks. mset (filter (\<lambda>x. f x = k) (x # xs))) =
        (\<Sum>k\<leftarrow>ks. (if f x = k then {#x#} else {#}) + mset (filter (\<lambda>x. f x = k) xs))"
    by (rule arg_cong[where f = sum_list], rule map_cong) auto
  also have "\<dots> = (\<Sum>k\<leftarrow>ks. if f x = k then {#x#} else {#}) + (\<Sum>k\<leftarrow>ks. mset (filter (\<lambda>x. f x = k) xs))"
    by (simp add: sum_list_addf)
  also have "\<dots> = {#x#} + mset xs"
    using Cons sum_list_indicator[of ks "f x" "{#x#}"] by simp
  finally show ?case by simp
qed

lemma sum_list_mset_map:
  "(\<Sum>k\<leftarrow>ks. mset (map f (g k))) = image_mset f (\<Sum>k\<leftarrow>ks. mset (g k))"
  by (induction ks) auto

lemma ReshapeData_group:
  assumes r: "ReshapeData (k, filter (\<lambda>d. d (Str ''counter_party'') = Some k) dataset1,
                              filter (\<lambda>d. d (Str ''counter_party'') = Some k) dataset2) = Inr ys"
  shows "map Some ys = map (joined_record dataset2) (filter (\<lambda>d. d (Str ''counter_party'') = Some k) dataset1)"
proof (cases "filter (\<lambda>d. d (Str ''counter_party'') = Some k) dataset1")
  case Nil
  with r show ?thesis by (simp add: ReshapeData_def)
next
  case (Cons a as)
  let ?as = "filter (\<lambda>d. d (Str ''counter_party'') = Some k) dataset1"
  let ?bs = "filter (\<lambda>d. d (Str ''counter_party'') = Some k) dataset2"
  from r Cons obtain b bs where bs: "?bs = b # bs"
    by (cases ?bs) (auto simp: ReshapeData_def)
  with r Cons obtain t where t: "b (Str ''tier'') = Some t"
    by (cases "b (Str ''tier'')") (auto simp: ReshapeData_def getitem_def)
  have jr: "joined_record dataset2 entry = Some (entry(Str ''tier'' \<mapsto> t))" if "entry \<in> set ?as" for entry
  proof -
    from that have "entry (Str ''counter_party'') = Some k" by simp
    then have "first_match dataset2 entry = Some b"
      using bs by (simp add: first_match_def find_filter)
    with t show ?thesis by (simp add: joined_record_def)
  qed
  have "traverse (\<lambda>entry. case ?bs of [] \<Rightarrow> Inl IndexError
            | b # _ \<Rightarrow> try_bind (getitem b ''tier'') (\<lambda>t. Inr (entry(Str ''tier'' \<mapsto> t)))) ?as =
        Inr (map (\<lambda>entry. entry(Str ''tier'' \<mapsto> t)) ?as)"
    by (rule traverse_Inr_map) (simp add: bs t getitem_def)
  with r have "ys = map (\<lambda>entry. entry(Str ''tier'' \<mapsto> t)) ?as"
    by (simp add: ReshapeData_def)
  then show ?thesis using jr by simp
qed

lemma merged_data_joined:
  assumes "merged_data dataset1 dataset2 = Inr merged"
  shows "mset (map Some merged) = mset (map (joined_record dataset2) dataset1)"
proof -
  from assms obtain kv1 kv2 yielded where
    kv1: "key_by_counter_party dataset1 = Inr kv1" and kv2: "key_by_counter_party dataset2 = Inr kv2"
    and ys: "traverse ReshapeData (CoGroupByKey kv1 kv2) = Inr yielded"
    and merged: "merged = concat yielded"
    by (auto simp: merged_data_def try_bind_Inr)
  note k1 = key_by_counter_party_Inr[OF kv1] and k2 = key_by_counter_party_Inr[OF kv2]
  let ?ks = "uniq_keys (map fst kv1 @ map fst kv2)"
  let ?cp = "\<lambda>d. the (d (Str ''counter_party''))"
  let ?grp = "\<lambda>k. filter (\<lambda>d. d (Str ''counter_party'') = Some k) dataset1"
  have groups: "CoGroupByKey kv1 kv2 =
      map (\<lambda>k. (k, ?grp k, filter (\<lambda>d. d (Str ''counter_party'') = Some k) dataset2)) ?ks"
    by (simp add: CoGroupByKey_def k1(1) k2(1) values_of_keyed[OF k1(2)] values_of_keyed[OF k2(2)])
  from ys have "list_all2 (\<lambda>g y. ReshapeData g = Inr y) (CoGroupByKey kv1 kv2) yielded"
    by (simp add: traverse_Inr_iff)
  then have each: "list_all2 (\<lambda>k y. map Some y = map (joined_record dataset2) (?grp k)) ?ks yielded"
    unfolding groups list_all2_map1 by (rule list_all2_mono) (rule ReshapeData_group)
  have "mset (map Some (concat yielded)) = (\<Sum>y\<leftarrow>yielded. mset (map Some y))"
    by (induction yielded) auto
  also have "\<dots> = (\<Sum>k\<leftarrow>?ks. mset (map (joined_record dataset2) (?grp k)))"
    by (rule list_all2_sum_list[OF each, symmetric]) simp
  also have "\<dots> = image_mset (joined_record dataset2) (\<Sum>k\<leftarrow>?ks. mset (?grp k))"
    by (rule sum_list_mset_map)
  also have "(\<Sum>k\<leftarrow>?ks. mset (?grp k)) = (\<Sum>k\<leftarrow>?ks. mset (filter (\<lambda>d. ?cp d = k) dataset1))"
    by (rule arg_cong[where f = sum_list], rule map_cong, simp, rule arg_cong[where f = mset],
        rule filter_cong) (use k1(2) in auto)
  also have "\<dots> = mset dataset1"
    by (rule mset_partition) (auto simp: distinct_uniq_keys set_uniq_keys k1(1) image_iff)
  finally show ?thesis by (simp add: merged)
qed


lemma length_DataFrame_merge:
  "length (DataFrame_merge frame1 frame2) =
     (\<Sum>a\<leftarrow>frame1. length (filter (\<lambda>b. fst b = counter_party a) frame2))"
  by (simp add: DataFrame_merge_def length_concat comp_def)

lemma set_DataFrame_merge:
  "set (DataFrame_merge frame1 frame2) =
     {with_tier a (snd b) | a b. a \<in> set frame1 \<and> b \<in> set frame2 \<and> fst b = counter_party a}"
proof (intro set_eqI iffI)
  fix j assume "j \<in> set (DataFrame_merge frame1 frame2)"
  then obtain a b where "a \<in> set frame1" "b \<in> set frame2" "fst b = counter_party a"
    "j = with_tier a (snd b)"
    by (auto simp: DataFrame_merge_def)
  then show "j \<in> {with_tier a (snd b) | a b. a \<in> set frame1 \<and> b \<in> set frame2 \<and> fst b = counter_party a}"
    by blast
next
  fix j assume "j \<in> {with_tier a (snd b) | a b. a \<in> set frame1 \<and> b \<in> set frame2 \<and> fst b = counter_party a}"
  then obtain a b where "a \<in> set frame1" "b \<in> set frame2" "fst b = counter_party a"
    "j = with_tier a (snd b)"
    by blast
  then show "j \<in> set (DataFrame_merge frame1 frame2)"
    by (force simp: DataFrame_merge_def)
qed

text \<open>
  C4 as stated fails on the pandas pipeline: \<^verbatim>\<open>merge\<close> pairs an entry with every row of
  its counter party, so one entry of CP1 and two rows of CP1 with the tiers T1 and T2
  give two joined rows, one of each tier.
\<close>

theorem merge_pairs_counterexample:
  "length (DataFrame_merge example_frame1 [(''CP1'', ''T1''), (''CP1'', ''T2'')]) = 2 \<and>
   map tier (DataFrame_merge example_frame1 [(''CP1'', ''T1''), (''CP1'', ''T2'')]) = [''T1'', ''T2'']"
  by (simp add: DataFrame_merge_def example_frame1_def with_tier_def)

text \<open>
  C4, as the code has it. When the Beam join returns, every entry of the first dataset
  has a first record of its counter party in the second dataset, that record has a tier,
  and the joined records are, counted with repetitions, the copies of the entries with
  that tier set: one joined record per entry. The pandas \<^verbatim>\<open>merge\<close> gives one joined row
  for every pair of an entry and a row of the second frame with the same counter party.
\<close>

theorem join_per_entry:
  "(merged_data dataset1 dataset2 = Inr merged \<longrightarrow>
      mset (map Some merged) = mset (map (joined_record dataset2) dataset1)) \<and>
   length (DataFrame_merge frame1 frame2) =
     (\<Sum>a\<leftarrow>frame1. length (filter (\<lambda>b. fst b = counter_party a) frame2)) \<and>
   set (DataFrame_merge frame1 frame2) =
     {with_tier a (snd b) | a b. a \<in> set frame1 \<and> b \<in> set frame2 \<and> fst b = counter_party a}"
  using merged_data_joined length_DataFrame_merge set_DataFrame_merge by (intro conjI impI)

lemma two_tier_merged: "merged_data example_dataset1 two_tier_dataset2 = Inr example_merged"
  by (simp add: merged_data_def example_merged_def example_dataset1_def two_tier_dataset2_def
      key_by_counter_party_def getitem_def CoGroupByKey_def uniq_keys_def values_of_def ReshapeData_def)

theorem join_per_entry_witness:
  "merged_data example_dataset1 two_tier_dataset2 = Inr example_merged \<and>
   mset (map Some example_merged) = mset (map (joined_record two_tier_dataset2) example_dataset1)"
  using join_per_entry[THEN conjunct1, rule_format, OF two_tier_merged] two_tier_merged
  by (intro conjI)

section \<open>Malformed rows\<close>














end
